theory Spec2Isabelle
  imports
    Complex_Main
    "HOL-Library.Char_ord"
    "HOL-Library.List_Lexorder"
    "HOL-Library.Multiset"
    "HOL-Library.Product_Lexorder"
begin

section \<open>Data model\<close>

text \<open>
  The program is \<^verbatim>\<open>src/app.py\<close>. A row of the products table is a record;
  the article identifier is kept polymorphic (the source only sorts by it). A pandas
  DataFrame is a list of rows, each with its index label, so that
  \<^verbatim>\<open>reset_index\<close>, \<^verbatim>\<open>products.index.isin(idx)\<close> and the labels that
  \<^verbatim>\<open>drop_duplicates(...).reset_index()\<close> turns into a column are what the code
  has. Column values are integers (the volume already multiplied by the factor and
  truncated, as lines 15-16 leave it); reading the CSV files and that floating-point
  scaling are not part of the model. The integers are mathematical integers: the sums of
  a column are taken without the wrap-around of the 64-bit columns of pandas.
\<close>

datatype py_error = KeyError | IndexError | AttributeError

record 'a product =
  article :: 'a
  product_type :: string
  convenience_value :: int
  product_volume :: int
  product_price :: int

type_synonym 'a frame = "(nat \<times> 'a product) list"

text \<open>One shelter of \<^verbatim>\<open>shelters.T.to_dict()\<close>: column name to the parsed
  list of integers (\<^verbatim>\<open>[int(z) for z in x.split('-')]\<close>).\<close>

type_synonym shelter = "(string \<times> int list) list"

record config =
  volume_factor :: int
  volume_min :: int
  volume_max :: int
  price_meet :: int

subsection \<open>Loading: sort and re-index (lines 17-18)\<close>

definition read_csv :: "'a product list \<Rightarrow> 'a frame" where
  "read_csv rows = enumerate 0 rows"

definition sort_values :: "('a::linorder) frame \<Rightarrow> 'a frame" where
  "sort_values df = sort_key (\<lambda>(l, r). (product_type r, article r)) df"

definition reset_index :: "'a frame \<Rightarrow> 'a frame" where
  "reset_index df = enumerate 0 (map snd df)"

definition load_products :: "('a::linorder) product list \<Rightarrow> 'a frame" where
  "load_products rows = reset_index (sort_values (read_csv rows))"

section \<open>The constraint model handed to the engine\<close>

text \<open>
  A \<^verbatim>\<open>CpModel\<close> is the list of variable domains in creation order (a variable is
  its position), the list of added constraints and the objective. Every linear expression
  the program builds is a Python \<^verbatim>\<open>sum\<close> of variables, so an expression is the
  list of its variables; the sum of the empty list is the integer 0, and
  \<^verbatim>\<open>model.Add\<close> of the resulting Python boolean is the constraint that is always
  or never satisfied, which is what evaluating the empty sum gives.
\<close>

datatype cmp = Ge | Le | Eq | Gt | Lt

datatype literal = Lit nat | NotLit nat

datatype constraint =
  Add "nat list" cmp int
  | AddOnlyEnforceIf "nat list" cmp int literal

record cp_model =
  variables :: "(int \<times> int) list"
  constraints :: "constraint list"
  objective :: "nat list option"

definition CpModel :: cp_model where
  "CpModel = \<lparr>variables = [], constraints = [], objective = None\<rparr>"

definition NewIntVar :: "int \<Rightarrow> int \<Rightarrow> cp_model \<Rightarrow> nat \<times> cp_model" where
  "NewIntVar lb ub m = (length (variables m), m\<lparr>variables := variables m @ [(lb, ub)]\<rparr>)"

definition NewBoolVar :: "cp_model \<Rightarrow> nat \<times> cp_model" where
  "NewBoolVar m = (length (variables m), m\<lparr>variables := variables m @ [(0, 1)]\<rparr>)"

definition AddCt :: "constraint \<Rightarrow> cp_model \<Rightarrow> cp_model" where
  "AddCt c m = m\<lparr>constraints := constraints m @ [c]\<rparr>"

definition Maximize :: "nat list \<Rightarrow> cp_model \<Rightarrow> cp_model" where
  "Maximize e m = m\<lparr>objective := Some e\<rparr>"

subsection \<open>What the engine means by a solution\<close>

definition lin_sum :: "(nat \<Rightarrow> int) \<Rightarrow> nat list \<Rightarrow> int" where
  "lin_sum a xs = sum_list (map a xs)"

fun cmp_holds :: "cmp \<Rightarrow> int \<Rightarrow> int \<Rightarrow> bool" where
  "cmp_holds Ge x y = (x \<ge> y)"
| "cmp_holds Le x y = (x \<le> y)"
| "cmp_holds Eq x y = (x = y)"
| "cmp_holds Gt x y = (x > y)"
| "cmp_holds Lt x y = (x < y)"

fun lit_true :: "(nat \<Rightarrow> int) \<Rightarrow> literal \<Rightarrow> bool" where
  "lit_true a (Lit b) = (a b = 1)"
| "lit_true a (NotLit b) = (a b = 0)"

fun ct_holds :: "(nat \<Rightarrow> int) \<Rightarrow> constraint \<Rightarrow> bool" where
  "ct_holds a (Add xs c r) = cmp_holds c (lin_sum a xs) r"
| "ct_holds a (AddOnlyEnforceIf xs c r l) =
     (if lit_true a l then cmp_holds c (lin_sum a xs) r else True)"

definition in_domain :: "(nat \<Rightarrow> int) \<Rightarrow> nat \<times> int \<times> int \<Rightarrow> bool" where
  "in_domain a = (\<lambda>(x, lb, ub). lb \<le> a x \<and> a x \<le> ub)"

definition feasible :: "cp_model \<Rightarrow> (nat \<Rightarrow> int) \<Rightarrow> bool" where
  "feasible m a =
     (list_all (in_domain a) (enumerate 0 (variables m)) \<and>
      list_all (ct_holds a) (constraints m))"

section \<open>Restrictions per product type (lines 28-48)\<close>

text \<open>\<^verbatim>\<open>drop_duplicates(subset='product_type', keep='first')\<close> and
  \<^verbatim>\<open>keep='last'\<close>, rows with their labels.\<close>

fun keep_first :: "'a frame \<Rightarrow> 'a frame" where
  "keep_first [] = []"
| "keep_first (x # xs) =
     x # filter (\<lambda>y. product_type (snd y) \<noteq> product_type (snd x)) (keep_first xs)"

fun keep_last :: "'a frame \<Rightarrow> 'a frame" where
  "keep_last [] = []"
| "keep_last (x # xs) =
     (if product_type (snd x) \<in> set (map (product_type \<circ> snd) xs)
      then keep_last xs else x # keep_last xs)"

text \<open>The table \<^verbatim>\<open>prods_type\<close>: the inner merge on the product type of the two
  label tables, columns \<^verbatim>\<open>product_type, start, end\<close>.\<close>

definition prods_type :: "'a frame \<Rightarrow> (string \<times> nat \<times> nat) list" where
  "prods_type products =
     (let prods_type_start = map (\<lambda>(l, r). (l, product_type r)) (keep_first products);
          prods_type_end = map (\<lambda>(l, r). (l, product_type r)) (keep_last products)
      in [(t, s, e). (s, t) \<leftarrow> prods_type_start, (e, t') \<leftarrow> prods_type_end, t' = t])"

text \<open>The Python slice \<^verbatim>\<open>bools[s:e]\<close> for indices that are not negative.\<close>

definition slice :: "'b list \<Rightarrow> nat \<Rightarrow> nat \<Rightarrow> 'b list" where
  "slice xs s e = drop s (take e xs)"

fun restrictions_loop ::
  "cp_model \<Rightarrow> nat list \<Rightarrow> shelter \<Rightarrow> (string \<times> nat \<times> nat) list \<Rightarrow> py_error + cp_model"
where
  "restrictions_loop m bools sh [] = Inr m"
| "restrictions_loop m bools sh ((t, s, e) # rows) =
     (case map_of sh t of
        None \<Rightarrow> Inl KeyError
      | Some rule \<Rightarrow>
          if length rule > 1 then
            restrictions_loop
              (AddCt (Add (slice bools s e) Le (rule ! 1))
                (AddCt (Add (slice bools s e) Ge (rule ! 0)) m))
              bools sh rows
          else
            (case rule of
               [] \<Rightarrow> Inl IndexError
             | n # _ \<Rightarrow>
                 restrictions_loop (AddCt (Add (slice bools s e) Eq n) m) bools sh rows))"

definition product_type_restrictions ::
  "cp_model \<Rightarrow> 'a frame \<Rightarrow> nat list \<Rightarrow> shelter \<Rightarrow> py_error + cp_model"
where
  "product_type_restrictions m products bools sh =
     restrictions_loop m bools sh (prods_type products)"

section \<open>Building the model (lines 79-117)\<close>

fun new_int_vars :: "int list \<Rightarrow> cp_model \<Rightarrow> nat list \<times> cp_model" where
  "new_int_vars [] m = ([], m)"
| "new_int_vars (u # us) m =
     (let (x, m1) = NewIntVar 0 u m; (xs, m2) = new_int_vars us m1 in (x # xs, m2))"

fun new_bool_vars :: "nat \<Rightarrow> cp_model \<Rightarrow> nat list \<times> cp_model" where
  "new_bool_vars 0 m = ([], m)"
| "new_bool_vars (Suc k) m =
     (let (x, m1) = NewBoolVar m; (xs, m2) = new_bool_vars k m1 in (x # xs, m2))"

text \<open>The three linking loops, one iteration each.\<close>

definition link_p :: "nat list \<Rightarrow> nat list \<Rightarrow> nat \<Rightarrow> cp_model \<Rightarrow> cp_model" where
  "link_p vars_p bools i m =
     AddCt (AddOnlyEnforceIf [vars_p ! i] Lt 1 (NotLit (bools ! i)))
       (AddCt (AddOnlyEnforceIf [vars_p ! i] Gt 0 (Lit (bools ! i))) m)"

definition link_eq :: "nat list \<Rightarrow> int list \<Rightarrow> nat list \<Rightarrow> nat \<Rightarrow> cp_model \<Rightarrow> cp_model" where
  "link_eq vars_x x bools i m =
     AddCt (AddOnlyEnforceIf [vars_x ! i] Eq 0 (NotLit (bools ! i)))
       (AddCt (AddOnlyEnforceIf [vars_x ! i] Eq (x ! i) (Lit (bools ! i))) m)"

text \<open>Lines 79-115: the model before the restrictions, with the lists
  \<^verbatim>\<open>vars_p\<close> and \<^verbatim>\<open>bools\<close> that the rest of the function uses.\<close>

definition base_model :: "'a frame \<Rightarrow> config \<Rightarrow> nat list \<times> nat list \<times> cp_model" where
  "base_model products cfg =
     (let p = map (convenience_value \<circ> snd) products;
          v = map (product_volume \<circ> snd) products;
          w = map (product_price \<circ> snd) products;
          (vars_p, m1) = new_int_vars p CpModel;
          (vars_v, m2) = new_int_vars v m1;
          (vars_w, m3) = new_int_vars w m2;
          m4 = Maximize vars_p m3;
          m5 = AddCt (Add vars_v Ge (volume_min cfg * volume_factor cfg)) m4;
          m6 = AddCt (Add vars_v Le (volume_max cfg * volume_factor cfg)) m5;
          m7 = AddCt (Add vars_w Eq (price_meet cfg)) m6;
          (bools, m8) = new_bool_vars (length p) m7;
          m9 = fold (link_p vars_p bools) [0..<length p] m8;
          m10 = fold (link_eq vars_v v bools) [0..<length p] m9;
          m11 = fold (link_eq vars_w w bools) [0..<length p] m10
      in (vars_p, bools, m11))"

definition linear_solver_model :: "'a frame \<Rightarrow> shelter \<Rightarrow> config \<Rightarrow> py_error + cp_model" where
  "linear_solver_model products sh cfg =
     (let (vars_p, bools, m) = base_model products cfg
      in product_type_restrictions m products bools sh)"

section \<open>Solving one shelter (lines 50-72 and 119-127)\<close>

text \<open>
  The engine is a parameter: it maps a model to a status code and the values of the
  variables (\<^verbatim>\<open>solver.Value\<close>). The status codes of the engine are
  0 unknown, 1 model invalid, 2 feasible, 3 infeasible, 4 optimal.

  What the program prints is kept as a structured line: the summary with the three totals
  and the per-type counts, or the diagnostic. The volume total is the quotient of an
  integer by the factor; it is kept exact here (Python rounds it to a double), and
  \<open>None\<close> stands for the non-finite result of dividing by a zero factor.
\<close>

type_synonym engine = "cp_model \<Rightarrow> nat \<times> (nat \<Rightarrow> int)"

type_synonym 'a out_frame = "(nat \<times> 'a product \<times> string) list"

datatype line =
  Found string int "rat option" int "(string \<times> nat) list"
  | CantFind string

fun unique :: "'b list \<Rightarrow> 'b list" where
  "unique [] = []"
| "unique (x # xs) = x # filter (\<lambda>y. y \<noteq> x) (unique xs)"

definition true_div :: "int \<Rightarrow> int \<Rightarrow> rat option" where
  "true_div s f = (if f = 0 then None else Some (of_int s / of_int f))"

definition selected_idx :: "(nat \<Rightarrow> int) \<Rightarrow> int list \<Rightarrow> nat list \<Rightarrow> nat list" where
  "selected_idx val p vars_p = filter (\<lambda>i. val (vars_p ! i) > 0) [0..<length p]"

definition solution_prepare ::
  "(nat \<Rightarrow> int) \<Rightarrow> 'a frame \<Rightarrow> int list \<Rightarrow> nat list \<Rightarrow> string \<Rightarrow> config \<Rightarrow> 'a out_frame \<times> line"
where
  "solution_prepare val products p vars_p shelter_name cfg =
     (let idx = selected_idx val p vars_p;
          prods = filter (\<lambda>(l, r). l \<in> set idx) products;
          sum_p = sum_list (map (convenience_value \<circ> snd) prods);
          sum_v = true_div (sum_list (map (product_volume \<circ> snd) prods)) (volume_factor cfg);
          sum_w = sum_list (map (product_price \<circ> snd) prods);
          types = map (product_type \<circ> snd) prods;
          counts = map (\<lambda>t. (t, length (filter (\<lambda>t'. t' = t) types))) (unique types)
      in (map (\<lambda>(l, r). (l, r, shelter_name)) prods,
          Found shelter_name sum_p sum_v sum_w counts))"

definition linear_solver ::
  "engine \<Rightarrow> 'a frame \<Rightarrow> (string \<times> shelter) list \<Rightarrow> string \<Rightarrow> config
     \<Rightarrow> py_error + ('a out_frame \<times> line)"
where
  "linear_solver solver products shelters shelter_name cfg =
     (let (vars_p, bools, m) = base_model products cfg in
      case map_of shelters shelter_name of
        None \<Rightarrow> Inl KeyError
      | Some sh \<Rightarrow>
          (case product_type_restrictions m products bools sh of
             Inl err \<Rightarrow> Inl err
           | Inr model \<Rightarrow>
               (let (status, val) = solver model in
                if status = 4 then
                  Inr (solution_prepare val products
                         (map (convenience_value \<circ> snd) products) vars_p shelter_name cfg)
                else Inr ([], CantFind shelter_name))))"

section \<open>The loop over the shelters (lines 129-151)\<close>

text \<open>\<^verbatim>\<open>pd.concat([output, solution], axis=0, ignore_index=True)\<close>.\<close>

definition concat_frames :: "'a out_frame \<Rightarrow> 'a out_frame \<Rightarrow> 'a out_frame" where
  "concat_frames out sol = enumerate 0 (map snd (out @ sol))"

text \<open>Lines 145-149: a solution with at least one row becomes the output or is
  appended to it; an empty solution leaves the output as it is.\<close>

definition accumulate :: "'a out_frame option \<Rightarrow> 'a out_frame \<Rightarrow> 'a out_frame option" where
  "accumulate output solution =
     (if length solution > 0 then
        (case output of
           None \<Rightarrow> Some solution
         | Some out \<Rightarrow> Some (concat_frames out solution))
      else output)"

text \<open>The state of the loop is the variable \<^verbatim>\<open>output\<close> (\<open>None\<close> at first)
  and what has been printed so far. An exception ends the loop.\<close>

fun shelter_loop ::
  "engine \<Rightarrow> 'a frame \<Rightarrow> (string \<times> shelter) list \<Rightarrow> config \<Rightarrow> string list
     \<Rightarrow> 'a out_frame option \<times> line list \<Rightarrow> py_error + ('a out_frame option \<times> line list)"
where
  "shelter_loop solver products shelters cfg [] st = Inr st"
| "shelter_loop solver products shelters cfg (shelter_name # names) (output, printed) =
     (case linear_solver solver products shelters shelter_name cfg of
        Inl err \<Rightarrow> Inl err
      | Inr (solution, msg) \<Rightarrow>
          shelter_loop solver products shelters cfg names
            (accumulate output solution, printed @ [msg]))"

text \<open>The result of a run: the table written to \<^verbatim>\<open>output.csv\<close> (\<open>None\<close> when
  no file is written) and the printed lines, or the exception that ended it.
  \<^verbatim>\<open>output.shape\<close> on the initial \<^verbatim>\<open>None\<close> raises AttributeError.\<close>

definition solve ::
  "engine \<Rightarrow> config \<Rightarrow> ('a::linorder) product list \<Rightarrow> (string \<times> shelter) list
     \<Rightarrow> py_error + ('a out_frame option \<times> line list)"
where
  "solve solver cfg rows shelters =
     (let products = load_products rows in
      case shelter_loop solver products shelters cfg (map fst shelters) (None, []) of
        Inl err \<Rightarrow> Inl err
      | Inr (output, printed) \<Rightarrow>
          (case output of
             None \<Rightarrow> Inl AttributeError
           | Some out \<Rightarrow> Inr (if length out > 0 then Some out else None, printed)))"

section \<open>Closed forms used in the proofs\<close>

text \<open>The linking constraints of lines 105-115 for a catalog of \<open>n\<close> products, with the
  variables named by their positions: \<open>vars_p[i] = i\<close>, \<open>vars_v[i] = n + i\<close>,
  \<open>vars_w[i] = 2n + i\<close>, \<open>bools[i] = 3n + i\<close>.\<close>

definition link_cts :: "nat \<Rightarrow> 'a frame \<Rightarrow> constraint list" where
  "link_cts n products =
     concat (map (\<lambda>i. [AddOnlyEnforceIf [i] Gt 0 (Lit (3 * n + i)),
                        AddOnlyEnforceIf [i] Lt 1 (NotLit (3 * n + i))]) [0..<n]) @
     concat (map (\<lambda>i. [AddOnlyEnforceIf [n + i] Eq (product_volume (snd (products ! i)))
                          (Lit (3 * n + i)),
                        AddOnlyEnforceIf [n + i] Eq 0 (NotLit (3 * n + i))]) [0..<n]) @
     concat (map (\<lambda>i. [AddOnlyEnforceIf [2 * n + i] Eq (product_price (snd (products ! i)))
                          (Lit (3 * n + i)),
                        AddOnlyEnforceIf [2 * n + i] Eq 0 (NotLit (3 * n + i))]) [0..<n])"

text \<open>What the domains and the linking constraints say about product \<open>i\<close>.\<close>

definition linked :: "'a frame \<Rightarrow> (nat \<Rightarrow> int) \<Rightarrow> nat \<Rightarrow> bool" where
  "linked products a i \<longleftrightarrow>
     (let n = length products; r = snd (products ! i) in
      0 \<le> a i \<and> a i \<le> convenience_value r \<and>
      0 \<le> a (n + i) \<and> a (n + i) \<le> product_volume r \<and>
      0 \<le> a (2 * n + i) \<and> a (2 * n + i) \<le> product_price r \<and>
      (a (3 * n + i) = 0 \<or> a (3 * n + i) = 1) \<and>
      (if a (3 * n + i) = 1
       then a i > 0 \<and> a (n + i) = product_volume r \<and> a (2 * n + i) = product_price r
       else a i < 1 \<and> a (n + i) = 0 \<and> a (2 * n + i) = 0))"

text \<open>The constraints that the loop of lines 40-47 adds, as a list.\<close>

fun restriction_cts ::
  "nat list \<Rightarrow> shelter \<Rightarrow> (string \<times> nat \<times> nat) list \<Rightarrow> py_error + constraint list"
where
  "restriction_cts bools sh [] = Inr []"
| "restriction_cts bools sh ((t, s, e) # rows) =
     (case map_of sh t of
        None \<Rightarrow> Inl KeyError
      | Some rule \<Rightarrow>
          if length rule > 1 then
            (case restriction_cts bools sh rows of
               Inl err \<Rightarrow> Inl err
             | Inr cs \<Rightarrow>
                 Inr (Add (slice bools s e) Ge (rule ! 0) #
                      Add (slice bools s e) Le (rule ! 1) # cs))
          else
            (case rule of
               [] \<Rightarrow> Inl IndexError
             | n # _ \<Rightarrow>
                 (case restriction_cts bools sh rows of
                    Inl err \<Rightarrow> Inl err
                  | Inr cs \<Rightarrow> Inr (Add (slice bools s e) Eq n # cs))))"

text \<open>The selection as the specification words it: the indices whose boolean indicator
  is true.\<close>

definition selected_by_indicator :: "(nat \<Rightarrow> int) \<Rightarrow> nat list \<Rightarrow> nat \<Rightarrow> nat list" where
  "selected_by_indicator val bools n = filter (\<lambda>i. lit_true val (Lit (bools ! i))) [0..<n]"

section \<open>A catalog of three products\<close>

text \<open>Two food products and one medicine, in the order of the file; the shelter asks for
  exactly one food product, zero to two medicines and no supplies; the price to meet is 6.\<close>

definition food1 :: "nat product" where
  "food1 = \<lparr>article = 1, product_type = ''product_food'', convenience_value = 5,
             product_volume = 10, product_price = 2\<rparr>"

definition food2 :: "nat product" where
  "food2 = \<lparr>article = 2, product_type = ''product_food'', convenience_value = 3,
             product_volume = 20, product_price = 4\<rparr>"

definition med3 :: "nat product" where
  "med3 = \<lparr>article = 3, product_type = ''product_medicines'', convenience_value = 8,
            product_volume = 15, product_price = 6\<rparr>"

definition ex_rows :: "nat product list" where
  "ex_rows = [food1, med3, food2]"

definition ex_products :: "nat frame" where
  "ex_products = [(0, food1), (1, food2), (2, med3)]"

definition ex_shelter :: shelter where
  "ex_shelter =
     [(''product_food'', [1]), (''product_medicines'', [0, 2]), (''product_supplies'', [0])]"

definition ex_shelter_supplies :: shelter where
  "ex_shelter_supplies =
     [(''product_food'', [1]), (''product_medicines'', [0, 2]), (''product_supplies'', [3])]"

definition ex_config :: config where
  "ex_config = \<lparr>volume_factor = 10, volume_min = 0, volume_max = 10, price_meet = 6\<rparr>"

text \<open>The assignment that selects the two food products.\<close>

definition ex_val :: "nat \<Rightarrow> int" where
  "ex_val i = (if i < 12 then [5, 3, 0, 10, 20, 0, 2, 4, 0, 1, 1, 0] ! i else 0)"

definition ex_model :: cp_model where
  "ex_model =
     \<lparr>variables =
        [(0, 5), (0, 3), (0, 8), (0, 10), (0, 20), (0, 15), (0, 2), (0, 4), (0, 6),
         (0, 1), (0, 1), (0, 1)],
      constraints =
        [Add [3, 4, 5] Ge 0, Add [3, 4, 5] Le 100, Add [6, 7, 8] Eq 6,
         AddOnlyEnforceIf [0] Gt 0 (Lit 9), AddOnlyEnforceIf [0] Lt 1 (NotLit 9),
         AddOnlyEnforceIf [1] Gt 0 (Lit 10), AddOnlyEnforceIf [1] Lt 1 (NotLit 10),
         AddOnlyEnforceIf [2] Gt 0 (Lit 11), AddOnlyEnforceIf [2] Lt 1 (NotLit 11),
         AddOnlyEnforceIf [3] Eq 10 (Lit 9), AddOnlyEnforceIf [3] Eq 0 (NotLit 9),
         AddOnlyEnforceIf [4] Eq 20 (Lit 10), AddOnlyEnforceIf [4] Eq 0 (NotLit 10),
         AddOnlyEnforceIf [5] Eq 15 (Lit 11), AddOnlyEnforceIf [5] Eq 0 (NotLit 11),
         AddOnlyEnforceIf [6] Eq 2 (Lit 9), AddOnlyEnforceIf [6] Eq 0 (NotLit 9),
         AddOnlyEnforceIf [7] Eq 4 (Lit 10), AddOnlyEnforceIf [7] Eq 0 (NotLit 10),
         AddOnlyEnforceIf [8] Eq 6 (Lit 11), AddOnlyEnforceIf [8] Eq 0 (NotLit 11),
         Add [9] Eq 1, Add [] Ge 0, Add [] Le 2],
      objective = Some [0, 1, 2]\<rparr>"

definition ex_shelters :: "(string \<times> shelter) list" where
  "ex_shelters = [(''shelter_1'', ex_shelter)]"

text \<open>The same catalog with a medicine whose convenience value is 0, and its model.\<close>

definition ex_products0 :: "nat frame" where
  "ex_products0 = [(0, food1), (1, food2), (2, med3\<lparr>convenience_value := 0\<rparr>)]"

definition ex_model0 :: cp_model where
  "ex_model0 = ex_model\<lparr>variables := (variables ex_model)[2 := (0, 0)]\<rparr>"

text \<open>A second shelter that asks for exactly two food products, processed before the
  first one, and an engine that answers infeasible for its model and optimal with
  \<open>ex_val\<close> otherwise.\<close>

definition ex_shelter_two_food :: shelter where
  "ex_shelter_two_food =
     [(''product_food'', [2]), (''product_medicines'', [0, 2]), (''product_supplies'', [0])]"

definition ex_model_two_food :: cp_model where
  "ex_model_two_food =
     ex_model\<lparr>constraints :=
       take 21 (constraints ex_model) @ [Add [9] Eq 2, Add [] Ge 0, Add [] Le 2]\<rparr>"

definition ex_shelters2 :: "(string \<times> shelter) list" where
  "ex_shelters2 = [(''shelter_0'', ex_shelter_two_food), (''shelter_1'', ex_shelter)]"

definition ex_engine2 :: engine where
  "ex_engine2 m =
     (if Add [9] Eq 2 \<in> set (constraints m) then (3, \<lambda>x. 0) else (4, ex_val))"

text \<open>An engine that always answers optimal with \<open>ex_val\<close>.\<close>

definition ex_engine :: engine where
  "ex_engine m = (4, ex_val)"


section \<open>The model in closed form\<close>

lemma upt_shift: "[n..<n + Suc k] = n # [Suc n..<Suc n + k]"
  by (simp add: upt_conv_Cons)

lemma new_int_vars_eq:
  "new_int_vars us m =
     ([length (variables m)..<length (variables m) + length us],
      m\<lparr>variables := variables m @ map (Pair 0) us\<rparr>)"
proof (induction us arbitrary: m)
  case Nil
  then show ?case by simp
next
  case (Cons u us)
  have "new_int_vars (u # us) m =
          (length (variables m) #
             [Suc (length (variables m))..<Suc (length (variables m)) + length us],
           m\<lparr>variables := variables m @ (0, u) # map (Pair 0) us\<rparr>)"
    by (simp add: NewIntVar_def Cons.IH del: upt_Suc)
  then show ?case
    using upt_shift [of "length (variables m)" "length us"] by simp
qed

lemma new_bool_vars_eq:
  "new_bool_vars k m =
     ([length (variables m)..<length (variables m) + k],
      m\<lparr>variables := variables m @ replicate k (0, 1)\<rparr>)"
proof (induction k arbitrary: m)
  case 0
  then show ?case by simp
next
  case (Suc k)
  have "new_bool_vars (Suc k) m =
          (length (variables m) #
             [Suc (length (variables m))..<Suc (length (variables m)) + k],
           m\<lparr>variables := variables m @ (0, 1) # replicate k (0, 1)\<rparr>)"
    by (simp add: NewBoolVar_def Suc.IH del: upt_Suc)
  then show ?case
    using upt_shift [of "length (variables m)" k] by simp
qed

lemma fold_link_p:
  "fold (link_p vp bs) is m =
     m\<lparr>constraints := constraints m @
        concat (map (\<lambda>i. [AddOnlyEnforceIf [vp ! i] Gt 0 (Lit (bs ! i)),
                           AddOnlyEnforceIf [vp ! i] Lt 1 (NotLit (bs ! i))]) is)\<rparr>"
  by (induction "is" arbitrary: m) (simp_all add: link_p_def AddCt_def)

lemma fold_link_eq:
  "fold (link_eq vx x bs) is m =
     m\<lparr>constraints := constraints m @
        concat (map (\<lambda>i. [AddOnlyEnforceIf [vx ! i] Eq (x ! i) (Lit (bs ! i)),
                           AddOnlyEnforceIf [vx ! i] Eq 0 (NotLit (bs ! i))]) is)\<rparr>"
  by (induction "is" arbitrary: m) (simp_all add: link_eq_def AddCt_def)

lemma arith3:
  "n + (n + n) = 3 * n" "n + n = 2 * n" "3 * n + n = 4 * n" "2 * n + n = 3 * n"
  for n :: nat
  by simp_all

lemma base_model_eq:
  "base_model products cfg =
     ([0..<length products], [3 * length products..<4 * length products],
      \<lparr>variables = map (Pair 0) (map (convenience_value \<circ> snd) products) @
                    map (Pair 0) (map (product_volume \<circ> snd) products) @
                    map (Pair 0) (map (product_price \<circ> snd) products) @
                    replicate (length products) (0, 1),
       constraints =
         [Add [length products..<2 * length products] Ge (volume_min cfg * volume_factor cfg),
          Add [length products..<2 * length products] Le (volume_max cfg * volume_factor cfg),
          Add [2 * length products..<3 * length products] Eq (price_meet cfg)] @
         link_cts (length products) products,
       objective = Some [0..<length products]\<rparr>)"
  unfolding base_model_def Let_def new_int_vars_eq new_bool_vars_eq split_conv
    fold_link_p fold_link_eq link_cts_def
  apply (simp add: CpModel_def Maximize_def AddCt_def arith3 del: upt_Suc)
  apply (intro arg_cong2 [where f = append] arg_cong [where f = concat] map_cong refl)
    apply (simp_all del: upt_Suc)
  done

lemma restrictions_loop_cts:
  "restrictions_loop m bools sh rows =
     (case restriction_cts bools sh rows of
        Inl err \<Rightarrow> Inl err
      | Inr cs \<Rightarrow> Inr (m\<lparr>constraints := constraints m @ cs\<rparr>))"
proof (induction rows arbitrary: m)
  case Nil
  then show ?case by simp
next
  case (Cons row rows)
  obtain t s e where row: "row = (t, s, e)" by (cases row) auto
  show ?case
    by (simp add: row Cons.IH AddCt_def split: option.splits sum.splits list.splits)
qed

lemma linear_solver_model_eq:
  "linear_solver_model products sh cfg =
     (case restriction_cts [3 * length products..<4 * length products] sh (prods_type products) of
        Inl err \<Rightarrow> Inl err
      | Inr cs \<Rightarrow>
          Inr ((snd (snd (base_model products cfg)))
                 \<lparr>constraints := constraints (snd (snd (base_model products cfg))) @ cs\<rparr>))"
  by (simp add: linear_solver_model_def product_type_restrictions_def restrictions_loop_cts
      base_model_eq split: sum.splits)

lemma domains_map_Pair:
  "list_all (in_domain a) (enumerate k (map (Pair 0 \<circ> f) us)) \<longleftrightarrow>
     (\<forall>i<length us. 0 \<le> a (k + i) \<and> a (k + i) \<le> f (us ! i))"
  by (simp add: list_all_length nth_enumerate_eq in_domain_def)

lemma domains_replicate:
  "list_all (in_domain a) (enumerate k (replicate n (0, 1))) \<longleftrightarrow>
     (\<forall>i<n. 0 \<le> a (k + i) \<and> a (k + i) \<le> 1)"
  by (simp add: list_all_length nth_enumerate_eq in_domain_def)

lemma list_all_concat_upt:
  "list_all P (concat (map f [0..<n])) \<longleftrightarrow> (\<forall>i<n. list_all P (f i))"
  by (induction n) (auto simp: less_Suc_eq)

lemma feasible_base:
  "feasible (snd (snd (base_model products cfg))) a \<longleftrightarrow>
     (\<forall>i<length products. linked products a i) \<and>
     lin_sum a [length products..<2 * length products] \<ge> volume_min cfg * volume_factor cfg \<and>
     lin_sum a [length products..<2 * length products] \<le> volume_max cfg * volume_factor cfg \<and>
     lin_sum a [2 * length products..<3 * length products] = price_meet cfg"
  unfolding base_model_eq feasible_def link_cts_def
  apply (simp add: enumerate_append_eq domains_map_Pair domains_replicate list_all_concat_upt
      linked_def Let_def lin_sum_def arith3 del: upt_Suc)
  apply (rule iffI)
   apply (auto split: if_splits)
  done

lemma feasible_model:
  assumes "linear_solver_model products sh cfg = Inr m"
  shows "\<exists>cs. restriction_cts [3 * length products..<4 * length products] sh
                (prods_type products) = Inr cs \<and>
              (\<forall>a. feasible m a \<longleftrightarrow>
                 feasible (snd (snd (base_model products cfg))) a \<and> list_all (ct_holds a) cs)"
proof -
  from assms obtain cs where
    cs: "restriction_cts [3 * length products..<4 * length products] sh
           (prods_type products) = Inr cs" and
    m: "m = (snd (snd (base_model products cfg)))
              \<lparr>constraints := constraints (snd (snd (base_model products cfg))) @ cs\<rparr>"
    by (auto simp: linear_solver_model_eq split: sum.splits)
  have "feasible m a \<longleftrightarrow>
          feasible (snd (snd (base_model products cfg))) a \<and> list_all (ct_holds a) cs" for a
    by (auto simp: m feasible_def)
  with cs show ?thesis by blast
qed

lemma linear_solver_model_base:
  assumes "linear_solver_model products sh cfg = Inr m" and "feasible m a"
  shows "feasible (snd (snd (base_model products cfg))) a"
  using feasible_model [OF assms(1)] assms(2) by blast

lemma feasible_linked:
  assumes "linear_solver_model products sh cfg = Inr m" and "feasible m a"
    and "i < length products"
  shows "linked products a i"
  using linear_solver_model_base [OF assms(1,2)] assms(3) by (simp add: feasible_base)

section \<open>Rows, labels and sums\<close>

lemma lin_sum_upt: "lin_sum a [k..<k + n] = (\<Sum>i<n. a (k + i))"
proof -
  have "lin_sum a [k..<k + n] = sum a {k..<k + n}"
    by (simp add: lin_sum_def interv_sum_list_conv_sum_set_nat)
  also have "\<dots> = (\<Sum>i\<in>{0..<n}. a (i + k))"
    using sum.shift_bounds_nat_ivl [of a 0 k n] by (simp add: add.commute)
  finally show ?thesis by (simp add: add.commute lessThan_atLeast0)
qed

lemma range_index_nth:
  assumes "map fst products = [0..<length products]" and "i < length products"
  shows "fst (products ! i) = i"
proof -
  have "fst (products ! i) = map fst products ! i" using assms(2) by simp
  also have "\<dots> = i" using assms by simp
  finally show ?thesis .
qed

lemma isin_filter:
  assumes "map fst products = [0..<length products]"
  shows "filter (\<lambda>(l, r). l \<in> set (filter Q [0..<length products])) products =
         map (nth products) (filter Q [0..<length products])"
proof -
  let ?n = "length products"
  have "filter (\<lambda>(l, r). l \<in> set (filter Q [0..<?n])) (map (nth products) [0..<?n]) =
        map (nth products)
          (filter ((\<lambda>(l, r). l \<in> set (filter Q [0..<?n])) \<circ> nth products) [0..<?n])"
    by (simp only: filter_map)
  also have "filter ((\<lambda>(l, r). l \<in> set (filter Q [0..<?n])) \<circ> nth products) [0..<?n] =
        filter Q [0..<?n]"
  proof (rule filter_cong [OF refl])
    fix i assume "i \<in> set [0..<?n]"
    then have i: "i < ?n" by simp
    from range_index_nth [OF assms i] i
    show "((\<lambda>(l, r). l \<in> set (filter Q [0..<?n])) \<circ> nth products) i = Q i"
      by (auto simp: case_prod_beta)
  qed
  finally show ?thesis by (simp add: map_nth)
qed

lemma fst_load_products: "map fst (load_products rows) = [0..<length (load_products rows)]"
  by (simp add: load_products_def reset_index_def enumerate_eq_zip)

lemma length_load_products: "length (load_products rows) = length rows"
  by (simp add: load_products_def reset_index_def sort_values_def read_csv_def)

section \<open>The three-product catalog, evaluated\<close>

lemma ex_load: "load_products ex_rows = ex_products"
  by code_simp

lemma ex_prods_type:
  "prods_type ex_products = [(''product_food'', 0, 1), (''product_medicines'', 2, 2)]"
  by code_simp

lemma ex_length: "length ex_products = 3"
  by (simp add: ex_products_def)

lemma ex_upts:
  "[0..<3] = [0, 1, 2]" "[3..<6] = [3, 4, 5]" "[6..<9] = [6, 7, 8]" "[9..<12] = [9, 10, 11]"
  by (simp_all add: upt_conv_Cons)

lemma ex_base:
  "base_model ex_products ex_config =
     ([0, 1, 2], [9, 10, 11], ex_model\<lparr>constraints := take 21 (constraints ex_model)\<rparr>)"
  by (simp add: base_model_eq ex_length ex_upts link_cts_def)
     (simp add: ex_products_def food1_def food2_def med3_def ex_config_def ex_model_def
        numeral_3_eq_3)

lemma ex_cts:
  "restriction_cts [9, 10, 11] ex_shelter (prods_type ex_products) =
     Inr [Add [9] Eq 1, Add [] Ge 0, Add [] Le 2]"
  by (simp add: ex_prods_type ex_shelter_def slice_def)

lemma ex_built: "linear_solver_model ex_products ex_shelter ex_config = Inr ex_model"
  by (simp add: linear_solver_model_eq ex_length ex_upts ex_cts ex_base) (simp add: ex_model_def)

lemma ex_feasible: "feasible ex_model ex_val"
  by (simp add: feasible_def ex_model_def in_domain_def enumerate_eq_zip upt_conv_Cons
      ex_val_def lin_sum_def)

section \<open>One shelter: what the solver call returns\<close>

lemma linear_solver_eq:
  assumes "map_of shelters shelter_name = Some sh"
    and "linear_solver_model products sh cfg = Inr m"
    and "solver m = (st, a)"
  shows "linear_solver solver products shelters shelter_name cfg =
           (if st = 4 then
              Inr (solution_prepare a products (map (convenience_value \<circ> snd) products)
                     [0..<length products] shelter_name cfg)
            else Inr ([], CantFind shelter_name))"
proof -
  from assms(2) have
    "product_type_restrictions (snd (snd (base_model products cfg))) products
       [3 * length products..<4 * length products] sh = Inr m"
    by (simp add: linear_solver_model_def base_model_eq)
  then show ?thesis
    using assms(1,3) by (simp add: linear_solver_def base_model_eq)
qed

lemma selected_idx_upt:
  "selected_idx val (map f products) [0..<length products] =
     filter (\<lambda>i. 0 < val i) [0..<length products]"
  unfolding selected_idx_def by (rule filter_cong) simp_all

lemma distinct_selected_idx: "distinct (selected_idx val p vars_p)"
  by (simp add: selected_idx_def)

lemma set_selected_idx: "i \<in> set (selected_idx val p vars_p) \<Longrightarrow> i < length p"
  by (simp add: selected_idx_def)

lemma selected_rows:
  assumes "map fst products = [0..<length products]" and "length p = length products"
  shows "filter (\<lambda>(l, r). l \<in> set (selected_idx val p vars_p)) products =
         map (nth products) (selected_idx val p vars_p)"
  using isin_filter [OF assms(1), of "\<lambda>i. val (vars_p ! i) > 0"]
  by (simp add: selected_idx_def assms(2))

lemma sum_list_selected:
  "sum_list (map (f \<circ> snd) (map (nth products) (selected_idx val p vars_p))) =
     (\<Sum>i\<in>set (selected_idx val p vars_p). f (snd (products ! i)))"
proof -
  have "sum_list (map (f \<circ> snd) (map (nth products) (selected_idx val p vars_p))) =
        sum_list (map (\<lambda>i. f (snd (products ! i))) (selected_idx val p vars_p))"
    by (simp add: comp_def)
  also have "\<dots> = (\<Sum>i\<in>set (selected_idx val p vars_p). f (snd (products ! i)))"
    by (rule sum_list_distinct_conv_sum_set [OF distinct_selected_idx])
  finally show ?thesis .
qed

lemma selected_labels:
  assumes "map fst products = [0..<length products]" and "length p = length products"
  shows "map (\<lambda>(l, r). (l, r, name)) (map (nth products) (selected_idx val p vars_p)) =
         map (\<lambda>i. (i, snd (products ! i), name)) (selected_idx val p vars_p)"
proof -
  have "(case products ! i of (l, r) \<Rightarrow> (l, r, name)) = (i, snd (products ! i), name)"
    if "i \<in> set (selected_idx val p vars_p)" for i
    using range_index_nth [OF assms(1), of i] set_selected_idx [OF that] assms(2)
    by (simp add: case_prod_beta)
  then show ?thesis by simp
qed

lemma solution_prepare_loaded:
  "(let products = load_products rows;
        S = selected_idx val (map (convenience_value \<circ> snd) products) vars_p
    in \<exists>counts.
         solution_prepare val products (map (convenience_value \<circ> snd) products) vars_p
           shelter_name cfg =
         (map (\<lambda>i. (i, snd (products ! i), shelter_name)) S,
          Found shelter_name
            (\<Sum>i\<in>set S. convenience_value (snd (products ! i)))
            (true_div (\<Sum>i\<in>set S. product_volume (snd (products ! i))) (volume_factor cfg))
            (\<Sum>i\<in>set S. product_price (snd (products ! i)))
            counts))"
proof -
  define products where "products = load_products rows"
  define p where "p = map (convenience_value \<circ> snd) products"
  have labels: "map fst products = [0..<length products]"
    unfolding products_def by (rule fst_load_products)
  have len: "length p = length products"
    by (simp add: p_def)
  note rows = selected_rows [OF labels len, of val vars_p]
  have "\<exists>counts.
         solution_prepare val products p vars_p shelter_name cfg =
         (map (\<lambda>i. (i, snd (products ! i), shelter_name)) (selected_idx val p vars_p),
          Found shelter_name
            (\<Sum>i\<in>set (selected_idx val p vars_p). convenience_value (snd (products ! i)))
            (true_div (\<Sum>i\<in>set (selected_idx val p vars_p). product_volume (snd (products ! i)))
               (volume_factor cfg))
            (\<Sum>i\<in>set (selected_idx val p vars_p). product_price (snd (products ! i)))
            counts)"
    unfolding solution_prepare_def Let_def rows sum_list_selected
      selected_labels [OF labels len]
    by blast
  then show ?thesis
    by (simp add: products_def p_def Let_def)
qed

lemma ex_map_of: "map_of ex_shelters ''shelter_1'' = Some ex_shelter"
  by (simp add: ex_shelters_def)

lemma ex_solved:
  "linear_solver ex_engine ex_products ex_shelters ''shelter_1'' ex_config =
     Inr ([(0, food1, ''shelter_1''), (1, food2, ''shelter_1'')],
          Found ''shelter_1'' 8 (Some 3) 6 [(''product_food'', 2)])"
proof -
  have "linear_solver ex_engine ex_products ex_shelters ''shelter_1'' ex_config =
        Inr (solution_prepare ex_val ex_products (map (convenience_value \<circ> snd) ex_products)
               [0..<length ex_products] ''shelter_1'' ex_config)"
    using linear_solver_eq [where solver = ex_engine and m = ex_model, OF ex_map_of ex_built]
    by (simp add: ex_engine_def)
  also have "solution_prepare ex_val ex_products (map (convenience_value \<circ> snd) ex_products)
               [0..<length ex_products] ''shelter_1'' ex_config =
             ([(0, food1, ''shelter_1''), (1, food2, ''shelter_1'')],
              Found ''shelter_1'' 8 (Some 3) 6 [(''product_food'', 2)])"
    by (simp add: solution_prepare_def selected_idx_def ex_length ex_upts ex_val_def
        ex_products_def food1_def food2_def med3_def true_div_def ex_config_def)
  finally show ?thesis .
qed

section \<open>Claims about the selection and the reported totals\<close>


text \<open>
  C5. In every feasible assignment of the model built for a shelter, the quantity variable
  of a product is strictly positive exactly when its boolean indicator is true. Hence the
  indices the code selects by reading the quantity values are the indices whose indicator
  is true, which is the extraction the specification prescribes.
\<close>

theorem quantity_positive_iff_indicator:
  assumes "linear_solver_model products sh cfg = Inr m" and "feasible m a"
    and "base_model products cfg = (vars_p, bools, m0)"
  shows "(\<forall>i<length products. 0 < a (vars_p ! i) \<longleftrightarrow> lit_true a (Lit (bools ! i))) \<and>
         selected_idx a (map (convenience_value \<circ> snd) products) vars_p =
         selected_by_indicator a bools (length products)"
proof -
  let ?n = "length products"
  from assms(3) have vp: "vars_p = [0..<?n]" and bs: "bools = [3 * ?n..<4 * ?n]"
    by (simp_all add: base_model_eq)
  have key: "0 < a (vars_p ! i) \<longleftrightarrow> lit_true a (Lit (bools ! i))" if "i < ?n" for i
    using feasible_linked [OF assms(1,2) that] that
    by (auto simp: vp bs linked_def Let_def split: if_splits)
  have "selected_idx a (map (convenience_value \<circ> snd) products) vars_p =
        selected_by_indicator a bools ?n"
    unfolding selected_idx_def selected_by_indicator_def
    by (rule filter_cong) (simp_all add: key)
  with key show ?thesis by blast
qed

theorem quantity_positive_iff_indicator_witness:
  "linear_solver_model ex_products ex_shelter ex_config = Inr ex_model \<and>
   feasible ex_model ex_val \<and>
   selected_idx ex_val (map (convenience_value \<circ> snd) ex_products) [0, 1, 2] =
     selected_by_indicator ex_val [9, 10, 11] (length ex_products) \<and>
   selected_by_indicator ex_val [9, 10, 11] (length ex_products) = [0, 1]"
  using quantity_positive_iff_indicator [OF ex_built ex_feasible ex_base]
  by (simp add: ex_built ex_feasible)
     (simp add: selected_by_indicator_def ex_length ex_upts ex_val_def)

lemma price_sum_selected:
  assumes "linear_solver_model products sh cfg = Inr m" and "feasible m a"
  shows "(\<Sum>i\<in>set (selected_idx a (map (convenience_value \<circ> snd) products)
                    [0..<length products]). product_price (snd (products ! i))) =
         price_meet cfg"
proof -
  let ?n = "length products"
  let ?S = "selected_idx a (map (convenience_value \<circ> snd) products) [0..<?n]"
  have S: "set ?S = {i. i < ?n \<and> 0 < a i}"
    by (auto simp: selected_idx_upt)
  have w: "a (2 * ?n + i) = (if 0 < a i then product_price (snd (products ! i)) else 0)"
    if "i < ?n" for i
    using feasible_linked [OF assms that] by (auto simp: linked_def Let_def split: if_splits)
  have "price_meet cfg = lin_sum a [2 * ?n..<2 * ?n + ?n]"
    using linear_solver_model_base [OF assms] by (simp add: feasible_base arith3)
  also have "\<dots> = (\<Sum>i<?n. a (2 * ?n + i))"
    by (rule lin_sum_upt)
  also have "\<dots> = (\<Sum>i<?n. if 0 < a i then product_price (snd (products ! i)) else 0)"
    by (rule sum.cong) (simp_all add: w)
  also have "\<dots> = (\<Sum>i\<in>{i. i < ?n \<and> 0 < a i}. product_price (snd (products ! i)))"
  proof -
    have "{i. i < ?n \<and> 0 < a i} = {i \<in> {..<?n}. 0 < a i}" by auto
    moreover have
      "(\<Sum>i\<in>{i \<in> {..<?n}. 0 < a i}. product_price (snd (products ! i))) =
       (\<Sum>i<?n. if 0 < a i then product_price (snd (products ! i)) else 0)"
      by (rule sum.inter_filter) simp
    ultimately show ?thesis by simp
  qed
  finally show ?thesis by (simp add: S)
qed

text \<open>
  C6. When the engine answers optimal with an assignment that satisfies the model built
  for a shelter, the allocation returned for that shelter reports a total price that is the
  sum of the catalog's stored prices over exactly the selected indices, and this total is
  equal to the configured \<^verbatim>\<open>price_meet\<close>.
\<close>

theorem reported_price_equals_price_meet:
  assumes "map_of shelters shelter_name = Some sh"
    and "linear_solver_model (load_products rows) sh cfg = Inr m"
    and "solver m = (4, a)" and "feasible m a"
  shows "\<exists>alloc sum_p sum_v sum_w counts.
           linear_solver solver (load_products rows) shelters shelter_name cfg =
             Inr (alloc, Found shelter_name sum_p sum_v sum_w counts) \<and>
           sum_w = (\<Sum>i\<in>set (selected_idx a (map (convenience_value \<circ> snd) (load_products rows))
                              [0..<length rows]). product_price (snd (load_products rows ! i))) \<and>
           sum_w = price_meet cfg"
proof -
  let ?products = "load_products rows"
  let ?S = "selected_idx a (map (convenience_value \<circ> snd) ?products) [0..<length rows]"
  have call: "linear_solver solver ?products shelters shelter_name cfg =
        Inr (solution_prepare a ?products (map (convenience_value \<circ> snd) ?products)
               [0..<length rows] shelter_name cfg)"
    using linear_solver_eq [where solver = solver and m = m, OF assms(1,2,3)]
    by (simp add: length_load_products)
  from solution_prepare_loaded
    [where val = a and rows = rows and vars_p = "[0..<length rows]"
       and shelter_name = shelter_name and cfg = cfg]
  obtain counts where
    "solution_prepare a ?products (map (convenience_value \<circ> snd) ?products)
       [0..<length rows] shelter_name cfg =
     (map (\<lambda>i. (i, snd (?products ! i), shelter_name)) ?S,
      Found shelter_name
        (\<Sum>i\<in>set ?S. convenience_value (snd (?products ! i)))
        (true_div (\<Sum>i\<in>set ?S. product_volume (snd (?products ! i))) (volume_factor cfg))
        (\<Sum>i\<in>set ?S. product_price (snd (?products ! i)))
        counts)"
    by (auto simp: Let_def)
  moreover have "(\<Sum>i\<in>set ?S. product_price (snd (?products ! i))) = price_meet cfg"
    using price_sum_selected [OF assms(2,4)] by (simp add: length_load_products)
  ultimately show ?thesis
    using call by simp
qed


theorem reported_price_equals_price_meet_witness:
  "map_of ex_shelters ''shelter_1'' = Some ex_shelter \<and>
   linear_solver_model (load_products ex_rows) ex_shelter ex_config = Inr ex_model \<and>
   ex_engine ex_model = (4, ex_val) \<and> feasible ex_model ex_val \<and>
   (\<exists>alloc sum_p sum_v counts.
      linear_solver ex_engine (load_products ex_rows) ex_shelters ''shelter_1'' ex_config =
        Inr (alloc, Found ''shelter_1'' sum_p sum_v 6 counts))"
proof -
  have built: "linear_solver_model (load_products ex_rows) ex_shelter ex_config = Inr ex_model"
    by (simp add: ex_load ex_built)
  have eng: "ex_engine ex_model = (4, ex_val)"
    by (simp add: ex_engine_def)
  from reported_price_equals_price_meet
    [where solver = ex_engine and m = ex_model, OF ex_map_of built eng ex_feasible]
  have "\<exists>alloc sum_p sum_v counts.
      linear_solver ex_engine (load_products ex_rows) ex_shelters ''shelter_1'' ex_config =
        Inr (alloc, Found ''shelter_1'' sum_p sum_v 6 counts)"
    by (auto simp: ex_config_def)
  with built eng ex_feasible ex_map_of show ?thesis by blast
qed

section \<open>The loaded catalog\<close>

lemma sorted_sort_values:
  "sorted (map (\<lambda>(l, r). (product_type r, article r)) (sort_values df))"
  by (simp add: sort_values_def)

lemma load_products_nth:
  assumes "i < length rows"
  shows "snd (load_products rows ! i) = snd (sort_values (read_csv rows) ! i)"
  using assms
  by (simp add: load_products_def reset_index_def nth_enumerate_eq sort_values_def read_csv_def)

lemma load_products_type_mono:
  assumes "i \<le> j" and "j < length rows"
  shows "product_type (snd (load_products rows ! i)) \<le> product_type (snd (load_products rows ! j))"
proof -
  let ?df = "sort_values (read_csv rows)"
  let ?key = "\<lambda>(l, r). (product_type r, article r)"
  have len: "length ?df = length rows"
    by (simp add: sort_values_def read_csv_def)
  have "map ?key ?df ! i \<le> map ?key ?df ! j"
    using sorted_sort_values [of "read_csv rows"] assms len
    by (intro sorted_nth_mono) simp_all
  then have "?key (?df ! i) \<le> ?key (?df ! j)"
    using assms len by simp
  then have "product_type (snd (?df ! i)) \<le> product_type (snd (?df ! j))"
    by (auto simp: case_prod_beta less_eq_prod_def)
  then show ?thesis
    using assms by (simp add: load_products_nth)
qed

text \<open>
  C9. Loading sorts the records by product type, then by article, and re-indexes them from
  0: the loaded catalog holds the same records as the file, its labels are
  \<open>0, 1, ..., n - 1\<close>, and whenever two positions hold the same product type, every
  position between them holds that type too. So the indices of a product type form one
  contiguous range, with no gap and no other type interleaved.
\<close>

theorem load_products_contiguous:
  "mset (map snd (load_products rows)) = mset rows \<and>
   map fst (load_products rows) = [0..<length rows] \<and>
   (\<forall>i j k. i \<le> j \<and> j \<le> k \<and> k < length rows \<and>
      product_type (snd (load_products rows ! i)) = product_type (snd (load_products rows ! k))
      \<longrightarrow> product_type (snd (load_products rows ! j)) =
          product_type (snd (load_products rows ! i)))"
proof (intro conjI allI impI)
  have "mset (map snd (sort_values (read_csv rows))) =
        image_mset snd (mset (sort_values (read_csv rows)))"
    by (rule mset_map)
  also have "\<dots> = image_mset snd (mset (read_csv rows))"
    by (simp add: sort_values_def)
  also have "\<dots> = mset (map snd (read_csv rows))"
    by (rule mset_map [symmetric])
  also have "map snd (read_csv rows) = rows"
    by (simp add: read_csv_def enumerate_eq_zip)
  finally show "mset (map snd (load_products rows)) = mset rows"
    by (simp add: load_products_def reset_index_def enumerate_eq_zip)
next
  show "map fst (load_products rows) = [0..<length rows]"
    using fst_load_products [of rows] by (simp add: length_load_products)
next
  fix i j k
  assume h: "i \<le> j \<and> j \<le> k \<and> k < length rows \<and>
      product_type (snd (load_products rows ! i)) = product_type (snd (load_products rows ! k))"
  then have ij: "i \<le> j" and jk: "j \<le> k" and k: "k < length rows" by simp_all
  from jk k have j: "j < length rows" by simp
  note le1 = load_products_type_mono [OF ij j] and le2 = load_products_type_mono [OF jk k]
  from h le1 le2 show "product_type (snd (load_products rows ! j)) =
          product_type (snd (load_products rows ! i))"
    by simp
qed

theorem load_products_contiguous_witness:
  "(0::nat) \<le> 1 \<and> (1::nat) \<le> 1 \<and> (1::nat) < length ex_rows \<and>
   product_type (snd (load_products ex_rows ! 0)) =
     product_type (snd (load_products ex_rows ! 1)) \<and>
   product_type (snd (load_products ex_rows ! 1)) =
     product_type (snd (load_products ex_rows ! 0)) \<and>
   map fst (load_products ex_rows) = [0..<length ex_rows]"
proof -
  have pre: "(0::nat) \<le> 1 \<and> (1::nat) \<le> 1 \<and> (1::nat) < length ex_rows \<and>
      product_type (snd (load_products ex_rows ! 0)) =
        product_type (snd (load_products ex_rows ! 1))"
    unfolding ex_load by (simp add: ex_products_def ex_rows_def food1_def food2_def)
  note sorted_catalog = load_products_contiguous [of ex_rows]
  from sorted_catalog have labels: "map fst (load_products ex_rows) = [0..<length ex_rows]"
    by (rule conjunct1 [OF conjunct2])
  from sorted_catalog have "\<forall>i j k. i \<le> j \<and> j \<le> k \<and> k < length ex_rows \<and>
      product_type (snd (load_products ex_rows ! i)) =
        product_type (snd (load_products ex_rows ! k))
      \<longrightarrow> product_type (snd (load_products ex_rows ! j)) =
          product_type (snd (load_products ex_rows ! i))"
    by (rule conjunct2 [OF conjunct2])
  then have "product_type (snd (load_products ex_rows ! 1)) =
          product_type (snd (load_products ex_rows ! 0))"
    using pre by blast
  with pre labels show ?thesis by blast
qed

section \<open>The loop over the shelters\<close>

lemma accumulate_empty: "accumulate output [] = output"
  by (simp add: accumulate_def)

lemma shelter_loop_eq:
  assumes "\<forall>name\<in>set names. \<exists>r. linear_solver solver products shelters name cfg = Inr r"
  shows "shelter_loop solver products shelters cfg names (out0, pr0) =
           Inr (foldl accumulate out0
                  (map (\<lambda>name. fst (projr (linear_solver solver products shelters name cfg)))
                     names),
                pr0 @ map (\<lambda>name. snd (projr (linear_solver solver products shelters name cfg)))
                        names)"
  using assms
proof (induction names arbitrary: out0 pr0)
  case Nil
  then show ?case by simp
next
  case (Cons name names)
  from Cons.prems obtain sol msg where
    r: "linear_solver solver products shelters name cfg = Inr (sol, msg)"
    by force
  from Cons.prems have
    "\<forall>name\<in>set names. \<exists>r. linear_solver solver products shelters name cfg = Inr r"
    by simp
  from Cons.IH [OF this] show ?case
    by (simp add: r)
qed

lemma linear_solver_built:
  assumes "map_of shelters name = Some sh" and "linear_solver_model products sh cfg = Inr m"
  shows "linear_solver solver products shelters name cfg =
           (if fst (solver m) = 4 then
              Inr (solution_prepare (snd (solver m)) products
                     (map (convenience_value \<circ> snd) products) [0..<length products] name cfg)
            else Inr ([], CantFind name))"
  by (rule linear_solver_eq [where solver = solver and m = m, OF assms]) simp

text \<open>
  C7. For a shelter whose model is built without an exception, the solve counts as a
  success exactly when the engine's status is 4 (optimal): then the prepared allocation is
  returned; with every other status the allocation is empty and the diagnostic is printed.
  The loop does not stop at such a shelter: it processes every shelter in order, prints one
  line per shelter, and an empty allocation leaves the accumulated output unchanged.
\<close>

theorem non_optimal_status_isolated:
  fixes products :: "'a frame"
  assumes "\<forall>name\<in>set names. \<exists>sh m.
             map_of shelters name = Some sh \<and> linear_solver_model products sh cfg = Inr m"
  shows "shelter_loop solver products shelters cfg names (None, []) =
           Inr (foldl accumulate None
                  (map (\<lambda>name. fst (projr (linear_solver solver products shelters name cfg)))
                     names),
                map (\<lambda>name. snd (projr (linear_solver solver products shelters name cfg)))
                  names) \<and>
         (\<forall>output :: 'a out_frame option. accumulate output [] = output) \<and>
         (\<forall>name\<in>set names. \<forall>sh m.
            map_of shelters name = Some sh \<and> linear_solver_model products sh cfg = Inr m \<longrightarrow>
            linear_solver solver products shelters name cfg =
              (if fst (solver m) = 4 then
                 Inr (solution_prepare (snd (solver m)) products
                        (map (convenience_value \<circ> snd) products) [0..<length products]
                        name cfg)
               else Inr ([], CantFind name)))"
proof (intro conjI ballI allI impI)
  have "\<forall>name\<in>set names. \<exists>r. linear_solver solver products shelters name cfg = Inr r"
  proof
    fix name assume "name \<in> set names"
    with assms obtain sh m where
      "map_of shelters name = Some sh" "linear_solver_model products sh cfg = Inr m"
      by blast
    from linear_solver_built [OF this, of solver]
    show "\<exists>r. linear_solver solver products shelters name cfg = Inr r"
      by (simp split: if_splits)
  qed
  from shelter_loop_eq [OF this, of None "[]"]
  show "shelter_loop solver products shelters cfg names (None, []) =
           Inr (foldl accumulate None
                  (map (\<lambda>name. fst (projr (linear_solver solver products shelters name cfg)))
                     names),
                map (\<lambda>name. snd (projr (linear_solver solver products shelters name cfg)))
                  names)"
    by simp
next
  fix out :: "'a out_frame option"
  show "accumulate out [] = out" by (rule accumulate_empty)
next
  fix name sh m
  assume "map_of shelters name = Some sh \<and> linear_solver_model products sh cfg = Inr m"
  then show "linear_solver solver products shelters name cfg =
              (if fst (solver m) = 4 then
                 Inr (solution_prepare (snd (solver m)) products
                        (map (convenience_value \<circ> snd) products) [0..<length products]
                        name cfg)
               else Inr ([], CantFind name))"
    using linear_solver_built by blast
qed


lemma ex_cts_two_food:
  "restriction_cts [9, 10, 11] ex_shelter_two_food (prods_type ex_products) =
     Inr [Add [9] Eq 2, Add [] Ge 0, Add [] Le 2]"
  by (simp add: ex_prods_type ex_shelter_two_food_def slice_def)

lemma ex_built_two_food:
  "linear_solver_model ex_products ex_shelter_two_food ex_config = Inr ex_model_two_food"
  by (simp add: linear_solver_model_eq ex_length ex_upts ex_cts_two_food ex_base)
     (simp add: ex_model_two_food_def ex_model_def)

lemma ex_map_of2:
  "map_of ex_shelters2 ''shelter_0'' = Some ex_shelter_two_food"
  "map_of ex_shelters2 ''shelter_1'' = Some ex_shelter"
  by (simp_all add: ex_shelters2_def)

lemma ex_engine2_status:
  "ex_engine2 ex_model_two_food = (3, \<lambda>x. 0)" "ex_engine2 ex_model = (4, ex_val)"
  by (simp_all add: ex_engine2_def ex_model_two_food_def ex_model_def)

lemma ex_failed:
  "linear_solver ex_engine2 ex_products ex_shelters2 ''shelter_0'' ex_config =
     Inr ([], CantFind ''shelter_0'')"
  using linear_solver_built [OF ex_map_of2(1) ex_built_two_food, of ex_engine2]
  by (simp add: ex_engine2_status)

lemma ex_solved2:
  "linear_solver ex_engine2 ex_products ex_shelters2 ''shelter_1'' ex_config =
     Inr ([(0, food1, ''shelter_1''), (1, food2, ''shelter_1'')],
          Found ''shelter_1'' 8 (Some 3) 6 [(''product_food'', 2)])"
proof -
  have "linear_solver ex_engine2 ex_products ex_shelters2 ''shelter_1'' ex_config =
        Inr (solution_prepare ex_val ex_products (map (convenience_value \<circ> snd) ex_products)
               [0..<length ex_products] ''shelter_1'' ex_config)"
    using linear_solver_built [OF ex_map_of2(2) ex_built, of ex_engine2]
    by (simp add: ex_engine2_status)
  also have "solution_prepare ex_val ex_products (map (convenience_value \<circ> snd) ex_products)
               [0..<length ex_products] ''shelter_1'' ex_config =
             ([(0, food1, ''shelter_1''), (1, food2, ''shelter_1'')],
              Found ''shelter_1'' 8 (Some 3) 6 [(''product_food'', 2)])"
    by (simp add: solution_prepare_def selected_idx_def ex_length ex_upts ex_val_def
        ex_products_def food1_def food2_def med3_def true_div_def ex_config_def)
  finally show ?thesis .
qed

theorem non_optimal_status_isolated_witness:
  "map_of ex_shelters2 ''shelter_0'' = Some ex_shelter_two_food \<and>
   linear_solver_model ex_products ex_shelter_two_food ex_config = Inr ex_model_two_food \<and>
   map_of ex_shelters2 ''shelter_1'' = Some ex_shelter \<and>
   linear_solver_model ex_products ex_shelter ex_config = Inr ex_model \<and>
   fst (ex_engine2 ex_model_two_food) = 3 \<and>
   shelter_loop ex_engine2 ex_products ex_shelters2 ex_config [''shelter_0'', ''shelter_1'']
     (None, []) =
     Inr (Some [(0, food1, ''shelter_1''), (1, food2, ''shelter_1'')],
          [CantFind ''shelter_0'', Found ''shelter_1'' 8 (Some 3) 6 [(''product_food'', 2)]])"
proof -
  have built: "\<forall>name\<in>set [''shelter_0'', ''shelter_1'']. \<exists>sh m.
      map_of ex_shelters2 name = Some sh \<and> linear_solver_model ex_products sh ex_config = Inr m"
    using ex_map_of2 ex_built ex_built_two_food by auto
  from non_optimal_status_isolated [OF built, of ex_engine2]
  have "shelter_loop ex_engine2 ex_products ex_shelters2 ex_config [''shelter_0'', ''shelter_1'']
     (None, []) =
     Inr (Some [(0, food1, ''shelter_1''), (1, food2, ''shelter_1'')],
          [CantFind ''shelter_0'', Found ''shelter_1'' 8 (Some 3) 6 [(''product_food'', 2)]])"
    by (simp add: ex_failed ex_solved2 accumulate_def)
  then show ?thesis
    using ex_map_of2 ex_built ex_built_two_food by (simp add: ex_engine2_status)
qed

section \<open>A run in which no shelter is solved\<close>

lemma foldl_accumulate_empty:
  "\<forall>sol\<in>set sols. sol = [] \<Longrightarrow> foldl accumulate out0 sols = out0"
  by (induction sols arbitrary: out0) (simp_all add: accumulate_empty)

text \<open>
  C3 (the code does not do this). When every shelter of a run ends with an empty
  allocation, the variable \<^verbatim>\<open>output\<close> is still \<^verbatim>\<open>None\<close> after the loop, and
  \<^verbatim>\<open>output.shape\<close> on line 150 raises AttributeError: the run does not complete
  normally.
\<close>

theorem solve_without_success_raises:
  assumes "\<forall>name\<in>set (map fst shelters). \<exists>msg.
             linear_solver solver (load_products rows) shelters name cfg = Inr ([], msg)"
  shows "solve solver cfg rows shelters = Inl AttributeError"
proof -
  let ?sol = "\<lambda>name. fst (projr (linear_solver solver (load_products rows) shelters name cfg))"
  from assms have ok: "\<forall>name\<in>set (map fst shelters). \<exists>r.
      linear_solver solver (load_products rows) shelters name cfg = Inr r"
    by blast
  from assms have "\<forall>sol\<in>set (map ?sol (map fst shelters)). sol = []"
    by force
  then have "foldl accumulate None (map ?sol (map fst shelters)) = None"
    by (rule foldl_accumulate_empty)
  with shelter_loop_eq [OF ok, of None "[]"] show ?thesis
    by (simp add: solve_def)
qed

theorem solve_without_success_raises_witness:
  "linear_solver ex_engine2 (load_products ex_rows) [(''shelter_0'', ex_shelter_two_food)]
     ''shelter_0'' ex_config = Inr ([], CantFind ''shelter_0'') \<and>
   solve ex_engine2 ex_config ex_rows [(''shelter_0'', ex_shelter_two_food)] =
     Inl AttributeError"
proof -
  have m: "map_of [(''shelter_0'', ex_shelter_two_food)] ''shelter_0'' = Some ex_shelter_two_food"
    by simp
  have failed: "linear_solver ex_engine2 (load_products ex_rows)
      [(''shelter_0'', ex_shelter_two_food)] ''shelter_0'' ex_config =
      Inr ([], CantFind ''shelter_0'')"
    using linear_solver_built [OF m ex_built_two_food, of ex_engine2]
    by (simp add: ex_engine2_status ex_load)
  then have "\<forall>name\<in>set (map fst [(''shelter_0'', ex_shelter_two_food)]). \<exists>msg.
      linear_solver ex_engine2 (load_products ex_rows) [(''shelter_0'', ex_shelter_two_food)]
        name ex_config = Inr ([], msg)"
    by simp
  from solve_without_success_raises [OF this] failed show ?thesis by simp
qed

section \<open>Rules for product types that the catalog does not have\<close>

lemma keep_first_subset: "set (keep_first df) \<subseteq> set df"
  by (induction df) auto

lemma prods_type_types:
  "(t, s, e) \<in> set (prods_type products) \<Longrightarrow>
     t \<in> set (map (product_type \<circ> snd) products)"
  using keep_first_subset [of products]
  by (auto simp: prods_type_def Let_def split: if_splits) force

lemma restrictions_loop_cong:
  assumes "\<forall>row\<in>set rows. map_of sh1 (fst row) = map_of sh2 (fst row)"
  shows "restrictions_loop m bools sh1 rows = restrictions_loop m bools sh2 rows"
  using assms
proof (induction rows arbitrary: m)
  case Nil
  then show ?case by simp
next
  case (Cons row rows)
  obtain t s e where row: "row = (t, s, e)" by (cases row) auto
  from Cons.prems have t: "map_of sh1 t = map_of sh2 t"
    and rest: "\<forall>row\<in>set rows. map_of sh1 (fst row) = map_of sh2 (fst row)"
    by (simp_all add: row)
  show ?case
    by (simp add: row t Cons.IH [OF rest] split: option.splits list.splits)
qed

text \<open>
  C4 (as the code has it). The loop of lines 40-47 runs over the product types of the
  catalog and looks each of them up in the shelter's rules. A rule for a product type that
  the catalog does not have is never looked up: no exception is raised for it and no
  constraint is added for it. The result of \<^verbatim>\<open>__product_type_restrictions\<close>
  depends only on the rules of the product types that occur in the catalog.
\<close>

theorem restrictions_ignore_absent_category:
  assumes "\<forall>t\<in>set (map (product_type \<circ> snd) products). map_of sh1 t = map_of sh2 t"
  shows "product_type_restrictions m products bools sh1 =
         product_type_restrictions m products bools sh2"
proof -
  have "\<forall>row\<in>set (prods_type products). map_of sh1 (fst row) = map_of sh2 (fst row)"
  proof
    fix row assume r: "row \<in> set (prods_type products)"
    obtain t s e where row: "row = (t, s, e)" by (cases row) auto
    from prods_type_types [of t s e products] r
    have "t \<in> set (map (product_type \<circ> snd) products)"
      by (simp add: row)
    with assms have "map_of sh1 t = map_of sh2 t"
      by blast
    then show "map_of sh1 (fst row) = map_of sh2 (fst row)"
      by (simp add: row)
  qed
  then show ?thesis
    unfolding product_type_restrictions_def by (rule restrictions_loop_cong)
qed

theorem restrictions_ignore_absent_category_witness:
  "map_of ex_shelter_supplies ''product_food'' = map_of ex_shelter ''product_food'' \<and>
   map_of ex_shelter_supplies ''product_medicines'' = map_of ex_shelter ''product_medicines'' \<and>
   map_of ex_shelter_supplies ''product_supplies'' = Some [3] \<and>
   map_of ex_shelter ''product_supplies'' = Some [0] \<and>
   product_type_restrictions CpModel ex_products [9, 10, 11] ex_shelter_supplies =
     product_type_restrictions CpModel ex_products [9, 10, 11] ex_shelter"
proof -
  have "\<forall>t\<in>set (map (product_type \<circ> snd) ex_products).
          map_of ex_shelter_supplies t = map_of ex_shelter t"
    by (simp add: ex_products_def food1_def food2_def med3_def ex_shelter_supplies_def
        ex_shelter_def)
  from restrictions_ignore_absent_category [OF this, of CpModel "[9, 10, 11]"]
  show ?thesis
    by (simp add: ex_shelter_supplies_def ex_shelter_def)
qed

text \<open>
  C4 as the specification states it fails: the catalog of three products has no supplies,
  the shelter asks for exactly three of them, and the model is built all the same (it is
  the model built for a shelter that asks for none), with no constraint for that rule; an
  optimal answer of the engine is returned as the shelter's allocation.
\<close>

theorem missing_category_not_rejected:
  "''product_supplies'' \<notin> set (map (product_type \<circ> snd) (load_products ex_rows)) \<and>
   map_of ex_shelter_supplies ''product_supplies'' = Some [3] \<and>
   linear_solver_model (load_products ex_rows) ex_shelter_supplies ex_config = Inr ex_model \<and>
   feasible ex_model ex_val \<and>
   linear_solver ex_engine (load_products ex_rows) [(''shelter_1'', ex_shelter_supplies)]
     ''shelter_1'' ex_config =
     Inr ([(0, food1, ''shelter_1''), (1, food2, ''shelter_1'')],
          Found ''shelter_1'' 8 (Some 3) 6 [(''product_food'', 2)])"
proof -
  have cts: "restriction_cts [9, 10, 11] ex_shelter_supplies (prods_type ex_products) =
     Inr [Add [9] Eq 1, Add [] Ge 0, Add [] Le 2]"
    by (simp add: ex_prods_type ex_shelter_supplies_def slice_def)
  have built: "linear_solver_model ex_products ex_shelter_supplies ex_config = Inr ex_model"
    by (simp add: linear_solver_model_eq ex_length ex_upts cts ex_base) (simp add: ex_model_def)
  have m: "map_of [(''shelter_1'', ex_shelter_supplies)] ''shelter_1'' = Some ex_shelter_supplies"
    by simp
  have "linear_solver ex_engine ex_products [(''shelter_1'', ex_shelter_supplies)]
          ''shelter_1'' ex_config =
        Inr (solution_prepare ex_val ex_products (map (convenience_value \<circ> snd) ex_products)
               [0..<length ex_products] ''shelter_1'' ex_config)"
    using linear_solver_built [OF m built, of ex_engine] by (simp add: ex_engine_def)
  also have "solution_prepare ex_val ex_products (map (convenience_value \<circ> snd) ex_products)
               [0..<length ex_products] ''shelter_1'' ex_config =
             ([(0, food1, ''shelter_1''), (1, food2, ''shelter_1'')],
              Found ''shelter_1'' 8 (Some 3) 6 [(''product_food'', 2)])"
    by (simp add: solution_prepare_def selected_idx_def ex_length ex_upts ex_val_def
        ex_products_def food1_def food2_def med3_def true_div_def ex_config_def)
  finally have solved: "linear_solver ex_engine ex_products [(''shelter_1'', ex_shelter_supplies)]
          ''shelter_1'' ex_config =
        Inr ([(0, food1, ''shelter_1''), (1, food2, ''shelter_1'')],
              Found ''shelter_1'' 8 (Some 3) 6 [(''product_food'', 2)])" .
  have absent: "''product_supplies'' \<notin> set (map (product_type \<circ> snd) ex_products)"
    by (simp add: ex_products_def food1_def food2_def med3_def)
  have rule: "map_of ex_shelter_supplies ''product_supplies'' = Some [3]"
    by (simp add: ex_shelter_supplies_def)
  from absent rule built ex_feasible solved show ?thesis
    by (simp add: ex_load)
qed

section \<open>The index range of a product type\<close>

lemma keep_last_subset: "set (keep_last df) \<subseteq> set df"
  by (induction df) auto

lemma range_index_mem:
  assumes "map fst products = [0..<length products]" and "(l, r) \<in> set products"
  shows "l < length products \<and> products ! l = (l, r)"
proof -
  from assms(2) obtain i where i: "i < length products" "products ! i = (l, r)"
    by (auto simp: in_set_conv_nth)
  with range_index_nth [OF assms(1), of i] have "l = i" by simp
  with i show ?thesis by simp
qed

text \<open>For a catalog labelled by position, the \<^verbatim>\<open>end\<close> of every row of
  \<^verbatim>\<open>prods_type\<close> is the position of a product of that type (the last one), so the
  slice \<^verbatim>\<open>bools[start:end]\<close> leaves that product out.\<close>

lemma prods_type_end_in_category:
  assumes "map fst products = [0..<length products]"
    and "(t, s, e) \<in> set (prods_type products)"
    and "distinct bools" and "e < length bools"
  shows "e < length products \<and> product_type (snd (products ! e)) = t \<and>
         bools ! e \<notin> set (slice bools s e)"
proof -
  from assms(2) obtain r where "(e, r) \<in> set (keep_last products)" "product_type r = t"
    by (auto simp: prods_type_def Let_def split: if_splits)
  with keep_last_subset [of products] have "(e, r) \<in> set products" by blast
  from range_index_mem [OF assms(1) this] \<open>product_type r = t\<close>
  have e: "e < length products \<and> product_type (snd (products ! e)) = t" by simp
  have "bools ! e \<notin> set (slice bools s e)"
  proof
    assume "bools ! e \<in> set (slice bools s e)"
    then have "bools ! e \<in> set (take e bools)"
      by (auto simp: slice_def dest: in_set_dropD)
    then obtain j where "j < e" "bools ! j = bools ! e"
      using assms(4) by (auto simp: in_set_conv_nth)
    with assms(3,4) show False
      by (auto simp: distinct_conv_nth)
  qed
  with e show ?thesis by simp
qed

lemma ex_feasible_selects_both:
  assumes "feasible ex_model a"
  shows "selected_idx a [5, 3, 8] [0, 1, 2] = [0, 1]"
proof -
  have vals: "snd (ex_products ! 0) = food1" "snd (ex_products ! Suc 0) = food2"
    "snd (ex_products ! 2) = med3"
    by (simp_all add: ex_products_def)
  from assms have "ct_holds a (Add [9] Eq 1)"
    by (simp add: feasible_def ex_model_def)
  then have b9: "a 9 = 1"
    by (simp add: lin_sum_def)
  from linear_solver_model_base [OF ex_built assms]
  have price: "a 6 + a 7 + a 8 = 6"
    by (simp add: feasible_base ex_length ex_upts lin_sum_def ex_config_def)
  from feasible_linked [OF ex_built assms, of 0] b9
  have l0: "0 < a 0" "a 6 = 2"
    by (simp_all add: linked_def Let_def ex_length vals food1_def)
  from feasible_linked [OF ex_built assms, of 1]
  have l1: "a 10 = 0 \<or> a 10 = 1" "a 10 = 1 \<Longrightarrow> 0 < a 1 \<and> a 7 = 4"
    "a 10 = 0 \<Longrightarrow> a 7 = 0"
    by (simp_all add: linked_def Let_def ex_length vals food2_def)
  from feasible_linked [OF ex_built assms, of 2]
  have l2: "a 11 = 0 \<or> a 11 = 1" "a 11 = 1 \<Longrightarrow> a 8 = 6" "a 11 = 0 \<Longrightarrow> a 2 < 1 \<and> a 8 = 0"
    by (simp_all add: linked_def Let_def ex_length vals med3_def)
  from price l0 l1 l2 have "a 10 = 1 \<and> a 11 = 0" by auto
  with l0 l1 l2 have "0 < a 0" "0 < a 1" "\<not> 0 < a 2" by auto
  then show ?thesis
    by (simp add: selected_idx_def upt_conv_Cons)
qed

section \<open>Where the code departs from the claims\<close>

text \<open>
  C2 (the code does not do this). For the catalog of three products the food products are
  at positions 0 and 1 and the medicine at position 2. The table \<^verbatim>\<open>prods_type\<close>
  has \<open>(start, end) = (0, 1)\<close> for food and \<open>(2, 2)\<close> for medicines: \<^verbatim>\<open>end\<close> is the
  position of the last occurrence, not one past it. With the indicators \<open>9, 10, 11\<close> of
  the three products, the food constraint is emitted over indicator 9 alone (product 1 is
  missing) and the medicine constraints over no indicator at all.
\<close>

theorem prods_type_end_is_last_position:
  "map (product_type \<circ> snd) (load_products ex_rows) =
     [''product_food'', ''product_food'', ''product_medicines''] \<and>
   prods_type (load_products ex_rows) =
     [(''product_food'', 0, 1), (''product_medicines'', 2, 2)] \<and>
   product_type_restrictions CpModel (load_products ex_rows) [9, 10, 11] ex_shelter =
     Inr \<lparr>variables = [],
          constraints = [Add [9] Eq 1, Add [] Ge 0, Add [] Le 2],
          objective = None\<rparr>"
proof -
  have "map (product_type \<circ> snd) ex_products =
     [''product_food'', ''product_food'', ''product_medicines'']"
    by (simp add: ex_products_def food1_def food2_def med3_def)
  moreover have "product_type_restrictions CpModel ex_products [9, 10, 11] ex_shelter =
     Inr \<lparr>variables = [],
          constraints = [Add [9] Eq 1, Add [] Ge 0, Add [] Le 2],
          objective = None\<rparr>"
    by (simp add: product_type_restrictions_def restrictions_loop_cts ex_cts CpModel_def)
  ultimately show ?thesis
    by (simp add: ex_load ex_prods_type)
qed

text \<open>
  C1 (the code does not do this). The shelter asks for exactly one food product. The model
  built for it is \<open>ex_model\<close>, whose only food constraint is on indicator 9. The assignment
  \<open>ex_val\<close> satisfies the model, every assignment that satisfies it selects both food
  products (the price 6 can only be met by the prices 2 and 4), and for the optimal answer
  \<open>ex_val\<close> the code returns an allocation with two food products.
\<close>

theorem exact_rule_exceeded:
  "map_of ex_shelter ''product_food'' = Some [1] \<and>
   linear_solver_model (load_products ex_rows) ex_shelter ex_config = Inr ex_model \<and>
   feasible ex_model ex_val \<and>
   (\<forall>a. feasible ex_model a \<longrightarrow>
      selected_idx a (map (convenience_value \<circ> snd) (load_products ex_rows)) [0, 1, 2] =
        [0, 1]) \<and>
   linear_solver ex_engine (load_products ex_rows) ex_shelters ''shelter_1'' ex_config =
     Inr ([(0, food1, ''shelter_1''), (1, food2, ''shelter_1'')],
          Found ''shelter_1'' 8 (Some 3) 6 [(''product_food'', 2)])"
proof -
  have p: "map (convenience_value \<circ> snd) ex_products = [5, 3, 8]"
    by (simp add: ex_products_def food1_def food2_def med3_def)
  have "map_of ex_shelter ''product_food'' = Some [1]"
    by (simp add: ex_shelter_def)
  with ex_built ex_feasible ex_solved ex_feasible_selects_both show ?thesis
    by (simp add: ex_load p)
qed

theorem exact_rule_exceeded_witness:
  "feasible ex_model ex_val \<and>
   selected_idx ex_val (map (convenience_value \<circ> snd) (load_products ex_rows)) [0, 1, 2] =
     [0, 1]"
  using exact_rule_exceeded by blast

section \<open>A product with convenience value 0\<close>

lemma proj_eq:
  "(case x of (l, r) \<Rightarrow> (l, product_type r)) = (case y of (l, r) \<Rightarrow> (l, product_type r)) \<longleftrightarrow>
     fst x = fst y \<and> product_type (snd x) = product_type (snd y)"
  by (cases x; cases y) simp

lemma keep_first_Cons_proj:
  "map (\<lambda>(l, r). (l, product_type r)) (keep_first (x # xs)) =
     (case x of (l, r) \<Rightarrow> (l, product_type r)) #
     filter (\<lambda>p. snd p \<noteq> product_type (snd x))
       (map (\<lambda>(l, r). (l, product_type r)) (keep_first xs))"
proof -
  have "map (\<lambda>(l, r). (l, product_type r)) (filter (\<lambda>z. product_type (snd z) \<noteq> t) zs) =
        filter (\<lambda>p. snd p \<noteq> t) (map (\<lambda>(l, r). (l, product_type r)) zs)"
    for t and zs :: "'a frame"
    by (induction zs) auto
  then show ?thesis by simp
qed

lemma keep_first_proj:
  assumes "map (\<lambda>(l, r). (l, product_type r)) xs = map (\<lambda>(l, r). (l, product_type r)) ys"
  shows "map (\<lambda>(l, r). (l, product_type r)) (keep_first xs) =
         map (\<lambda>(l, r). (l, product_type r)) (keep_first ys)"
  using assms
proof (induction xs arbitrary: ys)
  case Nil
  then show ?case by simp
next
  case (Cons x xs)
  from Cons.prems obtain y ys' where ys: "ys = y # ys'"
    and xy: "(case x of (l, r) \<Rightarrow> (l, product_type r)) = (case y of (l, r) \<Rightarrow> (l, product_type r))"
    and rest: "map (\<lambda>(l, r). (l, product_type r)) xs = map (\<lambda>(l, r). (l, product_type r)) ys'"
    by (cases ys) auto
  from xy have t: "product_type (snd x) = product_type (snd y)"
    by (simp add: proj_eq)
  show ?case
    by (simp only: ys keep_first_Cons_proj Cons.IH [OF rest] xy t)
qed

lemma types_of_proj:
  assumes "map (\<lambda>(l, r). (l, product_type r)) xs = map (\<lambda>(l, r). (l, product_type r)) ys"
  shows "set (map (product_type \<circ> snd) xs) = set (map (product_type \<circ> snd) ys)"
proof -
  have "map (product_type \<circ> snd) xs = map snd (map (\<lambda>(l, r). (l, product_type r)) xs)"
    by (simp add: case_prod_beta comp_def)
  also have "\<dots> = map snd (map (\<lambda>(l, r). (l, product_type r)) ys)"
    by (simp only: assms)
  also have "\<dots> = map (product_type \<circ> snd) ys"
    by (simp add: case_prod_beta comp_def)
  finally show ?thesis by (rule arg_cong)
qed

lemma keep_last_proj:
  assumes "map (\<lambda>(l, r). (l, product_type r)) xs = map (\<lambda>(l, r). (l, product_type r)) ys"
  shows "map (\<lambda>(l, r). (l, product_type r)) (keep_last xs) =
         map (\<lambda>(l, r). (l, product_type r)) (keep_last ys)"
  using assms
proof (induction xs arbitrary: ys)
  case Nil
  then show ?case by simp
next
  case (Cons x xs)
  from Cons.prems obtain y ys' where ys: "ys = y # ys'"
    and xy: "fst x = fst y" "product_type (snd x) = product_type (snd y)"
    and rest: "map (\<lambda>(l, r). (l, product_type r)) xs = map (\<lambda>(l, r). (l, product_type r)) ys'"
    by (cases ys) (auto simp: proj_eq)
  from types_of_proj [OF rest] xy Cons.IH [OF rest] show ?case
    by (simp add: ys proj_eq)
qed

lemma prods_type_proj:
  assumes "map (\<lambda>(l, r). (l, product_type r)) xs = map (\<lambda>(l, r). (l, product_type r)) ys"
  shows "prods_type xs = prods_type ys"
  by (simp only: prods_type_def Let_def keep_first_proj [OF assms] keep_last_proj [OF assms])

lemma prods_type_update:
  assumes "k < length products"
  shows "prods_type (products[k := (fst (products ! k),
                                     (snd (products ! k))\<lparr>convenience_value := c\<rparr>)]) =
         prods_type products"
proof (rule prods_type_proj)
  have "map (\<lambda>(l, r). (l, product_type r))
          (products[k := (fst (products ! k),
                          (snd (products ! k))\<lparr>convenience_value := c\<rparr>)]) =
        (map (\<lambda>(l, r). (l, product_type r)) products)
          [k := (fst (products ! k), product_type (snd (products ! k)))]"
    by (simp add: map_update)
  also have "\<dots> = map (\<lambda>(l, r). (l, product_type r)) products"
    using assms by (simp add: list_update_same_conv case_prod_beta)
  finally show "map (\<lambda>(l, r). (l, product_type r))
          (products[k := (fst (products ! k),
                          (snd (products ! k))\<lparr>convenience_value := c\<rparr>)]) =
        map (\<lambda>(l, r). (l, product_type r)) products" .
qed

lemma linked_update:
  assumes "k < length products" and "i < length products"
    and "linked (products[k := (fst (products ! k),
                                  (snd (products ! k))\<lparr>convenience_value := c\<rparr>)]) a i"
    and "a (3 * length products + k) \<noteq> 1"
    and "convenience_value (snd (products ! k)) = 0"
  shows "linked products a i"
proof (cases "i = k")
  case True
  with assms show ?thesis
    by (auto simp: linked_def Let_def split: if_splits)
next
  case False
  with assms show ?thesis
    by (simp add: linked_def Let_def)
qed

lemma solution_prepare_labels:
  assumes "map fst products = [0..<length products]" and "length p = length products"
  shows "map fst (fst (solution_prepare val products p vars_p name cfg)) =
         selected_idx val p vars_p"
proof -
  have "fst (solution_prepare val products p vars_p name cfg) =
        map (\<lambda>i. (i, snd (products ! i), name)) (selected_idx val p vars_p)"
    unfolding solution_prepare_def Let_def fst_conv selected_rows [OF assms]
    by (rule selected_labels [OF assms])
  then show ?thesis
    by (simp add: comp_def)
qed

lemma feasible_update:
  assumes k: "k < length products" and zero: "convenience_value (snd (products ! k)) = 0"
    and m: "linear_solver_model products sh cfg = Inr m"
    and m': "linear_solver_model
               (products[k := (fst (products ! k),
                               (snd (products ! k))\<lparr>convenience_value := c\<rparr>)]) sh cfg = Inr m'"
    and a: "feasible m' a" and off: "a (3 * length products + k) \<noteq> 1"
  shows "feasible m a"
proof -
  let ?products' = "products[k := (fst (products ! k),
                                   (snd (products ! k))\<lparr>convenience_value := c\<rparr>)]"
  let ?bools = "[3 * length products..<4 * length products]"
  from feasible_model [OF m] obtain cs where
    cs: "restriction_cts ?bools sh (prods_type products) = Inr cs" and
    iff: "\<And>a. feasible m a \<longleftrightarrow>
            feasible (snd (snd (base_model products cfg))) a \<and> list_all (ct_holds a) cs"
    by blast
  from feasible_model [OF m'] obtain cs' where
    cs': "restriction_cts ?bools sh (prods_type ?products') = Inr cs'" and
    iff': "\<And>a. feasible m' a \<longleftrightarrow>
            feasible (snd (snd (base_model ?products' cfg))) a \<and> list_all (ct_holds a) cs'"
    by auto
  from cs cs' have "cs' = cs"
    by (simp add: prods_type_update [OF k])
  with a iff' have base': "feasible (snd (snd (base_model ?products' cfg))) a"
    and rules: "list_all (ct_holds a) cs"
    by simp_all
  have "linked products a i" if "i < length products" for i
    using base' that
    by (intro linked_update [where c = c and a = a, OF k that _ off zero])
       (simp add: feasible_base)
  with base' have "feasible (snd (snd (base_model products cfg))) a"
    by (simp add: feasible_base)
  with rules iff show ?thesis by simp
qed

text \<open>
  C10. A product whose convenience value is 0 is never selected. In every feasible
  assignment of the model built for a shelter its boolean indicator is not true, its index
  is not among the indices the code selects, and no row of the allocation prepared from
  that assignment carries its label. The zero value removes nothing else: an assignment
  that leaves the product unselected and satisfies the model built with any other
  convenience value for that product satisfies the model built with the value 0 as well,
  so the model is infeasible because of the product only if every such assignment selects
  it.
\<close>

theorem zero_value_never_selected:
  assumes "map fst products = [0..<length products]"
    and "linear_solver_model products sh cfg = Inr m"
    and "base_model products cfg = (vars_p, bools, m0)"
    and "k < length products" and "convenience_value (snd (products ! k)) = 0"
  shows "(\<forall>a. feasible m a \<longrightarrow>
            \<not> lit_true a (Lit (bools ! k)) \<and>
            k \<notin> set (selected_idx a (map (convenience_value \<circ> snd) products) vars_p) \<and>
            k \<notin> set (map fst (fst (solution_prepare a products
                        (map (convenience_value \<circ> snd) products) vars_p shelter_name cfg)))) \<and>
         (\<forall>c m' a.
            linear_solver_model
              (products[k := (fst (products ! k),
                              (snd (products ! k))\<lparr>convenience_value := c\<rparr>)]) sh cfg = Inr m' \<and>
            feasible m' a \<and> \<not> lit_true a (Lit (bools ! k)) \<longrightarrow> feasible m a)"
proof (intro conjI allI impI)
  let ?n = "length products"
  let ?p = "map (convenience_value \<circ> snd) products"
  from assms(3) have vp: "vars_p = [0..<?n]" and bs: "bools = [3 * ?n..<4 * ?n]"
    by (simp_all add: base_model_eq)
  have bk: "bools ! k = 3 * ?n + k"
    using assms(4) by (simp add: bs)
  {
    fix a assume a: "feasible m a"
    from feasible_linked [OF assms(2) a assms(4)] assms(5)
    have off: "a (3 * ?n + k) \<noteq> 1" and q: "\<not> 0 < a k"
      by (auto simp: linked_def Let_def split: if_splits)
    from off show "\<not> lit_true a (Lit (bools ! k))"
      by (simp add: bk)
    from q show notsel: "k \<notin> set (selected_idx a ?p vars_p)"
      using assms(4) by (simp add: vp selected_idx_def)
    have "map fst (fst (solution_prepare a products ?p vars_p shelter_name cfg)) =
          selected_idx a ?p vars_p"
      by (rule solution_prepare_labels [OF assms(1)]) simp
    with notsel show "k \<notin> set (map fst (fst (solution_prepare a products ?p vars_p
                          shelter_name cfg)))"
      by simp
  }
  fix c m' a
  assume h: "linear_solver_model
              (products[k := (fst (products ! k),
                              (snd (products ! k))\<lparr>convenience_value := c\<rparr>)]) sh cfg = Inr m' \<and>
            feasible m' a \<and> \<not> lit_true a (Lit (bools ! k))"
  then have "a (3 * ?n + k) \<noteq> 1"
    by (simp add: bk)
  with h show "feasible m a"
    using feasible_update [OF assms(4,5,2)] by blast
qed

lemma ex_length0: "length ex_products0 = 3"
  by (simp add: ex_products0_def)

lemma ex_prods_type0:
  "prods_type ex_products0 = [(''product_food'', 0, 1), (''product_medicines'', 2, 2)]"
  by code_simp

lemma ex_base0:
  "base_model ex_products0 ex_config =
     ([0, 1, 2], [9, 10, 11], ex_model0\<lparr>constraints := take 21 (constraints ex_model0)\<rparr>)"
  by (simp add: base_model_eq ex_length0 ex_upts link_cts_def)
     (simp add: ex_products0_def food1_def food2_def med3_def ex_config_def ex_model_def
        ex_model0_def numeral_3_eq_3)

lemma ex_built0: "linear_solver_model ex_products0 ex_shelter ex_config = Inr ex_model0"
proof -
  have "restriction_cts [9, 10, 11] ex_shelter (prods_type ex_products0) =
     Inr [Add [9] Eq 1, Add [] Ge 0, Add [] Le 2]"
    by (simp add: ex_prods_type0 ex_shelter_def slice_def)
  then show ?thesis
    by (simp add: linear_solver_model_eq ex_length0 ex_upts ex_base0)
       (simp add: ex_model0_def ex_model_def)
qed

theorem zero_value_never_selected_witness:
  "map fst ex_products0 = [0..<length ex_products0] \<and>
   linear_solver_model ex_products0 ex_shelter ex_config = Inr ex_model0 \<and>
   (2::nat) < length ex_products0 \<and>
   convenience_value (snd (ex_products0 ! 2)) = 0 \<and>
   linear_solver_model
     (ex_products0[2 := (fst (ex_products0 ! 2),
                         (snd (ex_products0 ! 2))\<lparr>convenience_value := 8\<rparr>)])
     ex_shelter ex_config = Inr ex_model \<and>
   feasible ex_model ex_val \<and>
   \<not> lit_true ex_val (Lit ([9, 10, 11] ! 2)) \<and>
   feasible ex_model0 ex_val \<and>
   2 \<notin> set (selected_idx ex_val (map (convenience_value \<circ> snd) ex_products0) [0, 1, 2])"
proof -
  have labels: "map fst ex_products0 = [0..<length ex_products0]"
    by (simp add: ex_products0_def upt_conv_Cons)
  have k: "(2::nat) < length ex_products0"
    by (simp add: ex_length0)
  have zero: "convenience_value (snd (ex_products0 ! 2)) = 0"
    by (simp add: ex_products0_def)
  have "ex_products0[2 := (fst (ex_products0 ! 2),
                           (snd (ex_products0 ! 2))\<lparr>convenience_value := 8\<rparr>)] = ex_products"
    by (simp add: ex_products0_def ex_products_def med3_def)
  then have built8: "linear_solver_model
     (ex_products0[2 := (fst (ex_products0 ! 2),
                         (snd (ex_products0 ! 2))\<lparr>convenience_value := 8\<rparr>)])
     ex_shelter ex_config = Inr ex_model"
    by (simp only: ex_built)
  have off: "\<not> lit_true ex_val (Lit ([9, 10, 11] ! 2))"
    by (simp add: ex_val_def)
  note zero_case = zero_value_never_selected [OF labels ex_built0 ex_base0 k zero]
  from zero_case built8 ex_feasible off have feas: "feasible ex_model0 ex_val"
    by blast
  from zero_case feas
  have "2 \<notin> set (selected_idx ex_val (map (convenience_value \<circ> snd) ex_products0) [0, 1, 2])"
    by blast
  with labels ex_built0 k zero built8 ex_feasible off feas show ?thesis
    by blast
qed

end
